theory Spec2Isabelle
  imports Main
begin

section \<open>The network monitor of \<^verbatim>\<open>src/monitor.js\<close>\<close>

subsection \<open>JavaScript values of a parsed report\<close>

text \<open>
  The XML parser hands \<^verbatim>\<open>getActiveHosts\<close> a tree of plain JavaScript values: strings,
  arrays and objects with string keys; \<^verbatim>\<open>null\<close> for an empty document. Reading an
  absent property gives \<^verbatim>\<open>undefined\<close>. An object is an association list of its own
  properties (the first binding of a key is the property).
\<close>

datatype jsval =
    JUndefined
  | JNull
  | JStr string
  | JArr "jsval list"
  | JObj "(string \<times> jsval) list"

text \<open>
  What a \<^verbatim>\<open>throw\<close> or a rejected promise carries. \<open>TypeError\<close> is raised by the
  language itself; the other three are the failures of the scanner process, of reading its
  output file and of the XML parser, and \<open>NotifyError\<close> is a failed \<^verbatim>\<open>notify-send\<close>.
\<close>

datatype js_error = TypeError | ExecError | ReadError | ParseError | NotifyError

text \<open>Sequencing of computations that may throw: the first exception wins.\<close>

definition bind_e :: "js_error + 'a \<Rightarrow> ('a \<Rightarrow> js_error + 'b) \<Rightarrow> js_error + 'b" where
  "bind_e m k = (case m of Inl e \<Rightarrow> Inl e | Inr v \<Rightarrow> k v)"

text \<open>JavaScript truthiness: \<^verbatim>\<open>undefined\<close>, \<^verbatim>\<open>null\<close> and \<^verbatim>\<open>''\<close> are falsy.\<close>

fun truthy :: "jsval \<Rightarrow> bool" where
  "truthy JUndefined = False"
| "truthy JNull = False"
| "truthy (JStr s) = (s \<noteq> [])"
| "truthy (JArr xs) = True"
| "truthy (JObj kvs) = True"

text \<open>
  Property access \<^verbatim>\<open>v.k\<close>. On \<^verbatim>\<open>undefined\<close> and \<^verbatim>\<open>null\<close> it throws a TypeError. The
  program reads the names \<^verbatim>\<open>nmaprun\<close>, \<^verbatim>\<open>host\<close>, \<^verbatim>\<open>status\<close>, \<^verbatim>\<open>$\<close>, \<^verbatim>\<open>state\<close>,
  \<^verbatim>\<open>address\<close>, \<^verbatim>\<open>addrtype\<close>, \<^verbatim>\<open>addr\<close> and \<^verbatim>\<open>vendor\<close> only; none of them is a
  property of a string or of an array, nor inherited by an object, so there they read
  \<^verbatim>\<open>undefined\<close>.
\<close>

fun get :: "jsval \<Rightarrow> string \<Rightarrow> js_error + jsval" where
  "get JUndefined k = Inl TypeError"
| "get JNull k = Inl TypeError"
| "get (JStr s) k = Inr JUndefined"
| "get (JArr xs) k = Inr JUndefined"
| "get (JObj kvs) k = Inr (case map_of kvs k of None \<Rightarrow> JUndefined | Some v \<Rightarrow> v)"

text \<open>Element access \<^verbatim>\<open>v[0]\<close>: the first element, the first character, the property "0".\<close>

fun index0 :: "jsval \<Rightarrow> js_error + jsval" where
  "index0 JUndefined = Inl TypeError"
| "index0 JNull = Inl TypeError"
| "index0 (JStr s) = Inr (case s of [] \<Rightarrow> JUndefined | c # _ \<Rightarrow> JStr [c])"
| "index0 (JArr xs) = Inr (case xs of [] \<Rightarrow> JUndefined | x # _ \<Rightarrow> x)"
| "index0 (JObj kvs) = Inr (case map_of kvs ''0'' of None \<Rightarrow> JUndefined | Some v \<Rightarrow> v)"

text \<open>\<^verbatim>\<open>Array.isArray(x) ? x : [x]\<close>\<close>

fun as_array :: "jsval \<Rightarrow> jsval list" where
  "as_array (JArr xs) = xs"
| "as_array v = [v]"

text \<open>
  String conversion inside a template literal. An array joins the conversions of its
  elements with commas, \<^verbatim>\<open>null\<close> and \<^verbatim>\<open>undefined\<close> elements giving the empty string. A
  plain object gives \<^verbatim>\<open>[object Object]\<close>, unless an own property \<^verbatim>\<open>toString\<close> (which
  in a parsed tree is never a function) hides the inherited method: then the conversion
  throws a TypeError.
\<close>

fun to_str :: "jsval \<Rightarrow> js_error + string"
  and join_elems :: "jsval list \<Rightarrow> js_error + string"
  and elem_str :: "jsval \<Rightarrow> js_error + string" where
  "to_str JUndefined = Inr ''undefined''"
| "to_str JNull = Inr ''null''"
| "to_str (JStr s) = Inr s"
| "to_str (JArr xs) = join_elems xs"
| "to_str (JObj kvs) =
     (if map_of kvs ''toString'' = None then Inr ''[object Object]'' else Inl TypeError)"
| "join_elems [] = Inr []"
| "join_elems [x] = elem_str x"
| "join_elems (x # y # ys) =
     (case elem_str x of
        Inl e \<Rightarrow> Inl e
      | Inr s \<Rightarrow> (case join_elems (y # ys) of Inl e \<Rightarrow> Inl e | Inr r \<Rightarrow> Inr (s @ '','' @ r)))"
| "elem_str JUndefined = Inr []"
| "elem_str JNull = Inr []"
| "elem_str (JStr s) = to_str (JStr s)"
| "elem_str (JArr xs) = to_str (JArr xs)"
| "elem_str (JObj kvs) = to_str (JObj kvs)"

subsection \<open>Extracting the active hosts (step 4 of \<^verbatim>\<open>getActiveHosts\<close>)\<close>

text \<open>
  The filter callback
  \<^verbatim>\<open>host && host.status && host.status[0] && host.status[0].$ && host.status[0].$.state === 'up'\<close>:
  each \<^verbatim>\<open>&&\<close> stops at the first falsy operand.
\<close>

definition host_is_up :: "jsval \<Rightarrow> js_error + bool" where
  "host_is_up host =
     (if \<not> truthy host then Inr False
      else bind_e (get host ''status'') (\<lambda>status.
        if \<not> truthy status then Inr False
        else bind_e (index0 status) (\<lambda>status0.
          if \<not> truthy status0 then Inr False
          else bind_e (get status0 ''$'') (\<lambda>attrs.
            if \<not> truthy attrs then Inr False
            else bind_e (get attrs ''state'') (\<lambda>state. Inr (state = JStr ''up''))))))"

text \<open>\<^verbatim>\<open>hosts.filter(...)\<close>, element by element.\<close>

fun filter_up :: "jsval list \<Rightarrow> js_error + jsval list" where
  "filter_up [] = Inr []"
| "filter_up (h # hs) =
     bind_e (host_is_up h) (\<lambda>up.
       bind_e (filter_up hs) (\<lambda>rest. Inr (if up then h # rest else rest)))"

text \<open>The callback \<^verbatim>\<open>addr => addr && addr.$ && addr.$.addrtype === ty\<close>.\<close>

definition addr_has_type :: "string \<Rightarrow> jsval \<Rightarrow> js_error + bool" where
  "addr_has_type ty addr =
     (if \<not> truthy addr then Inr False
      else bind_e (get addr ''$'') (\<lambda>attrs.
        if \<not> truthy attrs then Inr False
        else bind_e (get attrs ''addrtype'') (\<lambda>t. Inr (t = JStr ty))))"

text \<open>\<^verbatim>\<open>addresses.find(...)\<close>: the first element the callback accepts, else \<^verbatim>\<open>undefined\<close>.\<close>

fun find_addr :: "string \<Rightarrow> jsval list \<Rightarrow> js_error + jsval" where
  "find_addr ty [] = Inr JUndefined"
| "find_addr ty (a # as) =
     bind_e (addr_has_type ty a) (\<lambda>hit. if hit then Inr a else find_addr ty as)"

text \<open>The two shapes of a host identifier.\<close>

definition id_with_mac :: "string \<Rightarrow> string \<Rightarrow> string \<Rightarrow> string" where
  "id_with_mac ip mac vendor = ip @ '' ('' @ mac @ '' - '' @ vendor @ '')''"

definition id_no_mac :: "string \<Rightarrow> string" where
  "id_no_mac ip = ip @ '' (No MAC)''"

text \<open>
  The body of the \<^verbatim>\<open>forEach\<close> callback, up to the identifier it adds: \<open>None\<close> is the
  early \<^verbatim>\<open>return\<close> of a host without an IPv4 address.
\<close>

definition host_identifier :: "jsval \<Rightarrow> js_error + string option" where
  "host_identifier host =
     bind_e (get host ''address'') (\<lambda>address.
       let addresses = as_array address in
       bind_e (find_addr ''ipv4'' addresses) (\<lambda>ipObj.
         if \<not> truthy ipObj then Inr None
         else bind_e (get ipObj ''$'') (\<lambda>ipAttrs.
           bind_e (get ipAttrs ''addr'') (\<lambda>ip.
             bind_e (find_addr ''mac'' addresses) (\<lambda>macObj.
               if truthy macObj then
                 bind_e (to_str ip) (\<lambda>s1.
                   bind_e (get macObj ''$'') (\<lambda>macAttrs.
                     bind_e (get macAttrs ''addr'') (\<lambda>mac.
                       bind_e (to_str mac) (\<lambda>s2.
                         bind_e (get macAttrs ''vendor'') (\<lambda>vendor.
                           bind_e (to_str (if truthy vendor then vendor else JStr ''Unknown''))
                             (\<lambda>s3. Inr (Some (id_with_mac s1 s2 s3))))))))
               else bind_e (to_str ip) (\<lambda>s1. Inr (Some (id_no_mac s1))))))))"

text \<open>
  A \<^verbatim>\<open>Set\<close> of strings is the list of its elements in insertion order, without
  repetition: \<^verbatim>\<open>add\<close> of a present element changes nothing, \<^verbatim>\<open>has\<close> is membership,
  \<^verbatim>\<open>size\<close> the length, and iteration follows the list.
\<close>

definition set_add :: "string list \<Rightarrow> string \<Rightarrow> string list" where
  "set_add s x = (if x \<in> set s then s else s @ [x])"

text \<open>\<^verbatim>\<open>.forEach(host => ...)\<close> over the filtered hosts, adding to \<^verbatim>\<open>activeHosts\<close>.\<close>

fun add_hosts :: "jsval list \<Rightarrow> string list \<Rightarrow> js_error + string list" where
  "add_hosts [] activeHosts = Inr activeHosts"
| "add_hosts (h # hs) activeHosts =
     bind_e (host_identifier h) (\<lambda>r.
       add_hosts hs (case r of None \<Rightarrow> activeHosts | Some i \<Rightarrow> set_add activeHosts i))"

text \<open>Step 4 as a whole, from the parser's result to the set.\<close>

definition extractHosts :: "jsval \<Rightarrow> js_error + string list" where
  "extractHosts result =
     bind_e (get result ''nmaprun'') (\<lambda>nmaprun.
       if \<not> truthy nmaprun then Inr []
       else bind_e (get nmaprun ''host'') (\<lambda>host.
         if \<not> truthy host then Inr []
         else bind_e (filter_up (as_array host)) (\<lambda>ups. add_hosts ups [])))"

subsection \<open>Console output, notifications and exceptions\<close>

text \<open>
  What a cycle does to the outside world, in order: a line on the console
  (\<^verbatim>\<open>console.log\<close>), an error line (\<^verbatim>\<open>console.error\<close> of a prefix followed by the
  exception's message or stack), and an invocation of \<^verbatim>\<open>notify-send -t 5000\<close> with a
  title and a body.
\<close>

datatype effect =
    ConsoleLog string
  | ConsoleError string js_error
  | NotifySend string string

text \<open>
  An asynchronous computation: the effects it performed, and the value it resolves to or
  the exception it rejects with.
\<close>

type_synonym 'a io = "effect list \<times> (js_error + 'a)"

definition io_return :: "'a \<Rightarrow> 'a io" where
  "io_return x = ([], Inr x)"

definition io_lift :: "js_error + 'a \<Rightarrow> 'a io" where
  "io_lift r = ([], r)"

definition io_bind :: "'a io \<Rightarrow> ('a \<Rightarrow> 'b io) \<Rightarrow> 'b io" where
  "io_bind m k =
     (case m of
        (es, Inl e) \<Rightarrow> (es, Inl e)
      | (es, Inr v) \<Rightarrow> (case k v of (es', r) \<Rightarrow> (es @ es', r)))"

text \<open>\<^verbatim>\<open>try { m } catch (err) { h err }\<close>\<close>

definition try_catch :: "'a io \<Rightarrow> (js_error \<Rightarrow> 'a io) \<Rightarrow> 'a io" where
  "try_catch m h =
     (case m of
        (es, Inl e) \<Rightarrow> (case h e of (es', r) \<Rightarrow> (es @ es', r))
      | (es, Inr v) \<Rightarrow> (es, Inr v))"

definition console_log :: "string \<Rightarrow> unit io" where
  "console_log s = ([ConsoleLog s], Inr ())"

definition console_error :: "string \<Rightarrow> js_error \<Rightarrow> unit io" where
  "console_error s e = ([ConsoleError s e], Inr ())"

text \<open>\<^verbatim>\<open>xs.forEach(x => console.log(prefix + x))\<close>\<close>

fun log_each :: "string \<Rightarrow> string list \<Rightarrow> unit io" where
  "log_each prefix [] = io_return ()"
| "log_each prefix (x # xs) = io_bind (console_log (prefix @ x)) (\<lambda>_. log_each prefix xs)"

text \<open>
  The notifier is outside the program: \<open>notifier title body\<close> says whether the
  \<^verbatim>\<open>notify-send\<close> process for that title and body succeeds (\<open>None\<close>) or how it fails.
\<close>

type_synonym notifier = "string \<Rightarrow> string \<Rightarrow> js_error option"

definition notify_send :: "notifier \<Rightarrow> string \<Rightarrow> string \<Rightarrow> unit io" where
  "notify_send notifier title body =
     ([NotifySend title body], case notifier title body of None \<Rightarrow> Inr () | Some e \<Rightarrow> Inl e)"

text \<open>Decimal digits of a number, as a template literal prints it.\<close>

definition digit_char :: "nat \<Rightarrow> char" where
  "digit_char d = char_of (48 + d)"

function show_nat :: "nat \<Rightarrow> string" where
  "show_nat n = (if n < 10 then [digit_char n] else show_nat (n div 10) @ [digit_char (n mod 10)])"
  by pat_completeness auto
termination
  by (relation "measure id") auto

text \<open>\<^verbatim>\<open>xs.join('\n')\<close>\<close>

fun join_lines :: "string list \<Rightarrow> string" where
  "join_lines [] = []"
| "join_lines [x] = x"
| "join_lines (x # y # ys) = x @ [CHR 0x0A] @ join_lines (y # ys)"

subsection \<open>\<^verbatim>\<open>getActiveHosts\<close>\<close>

definition SCAN_TARGET :: string where
  "SCAN_TARGET = ''10.15.71.1/24''"

text \<open>
  Steps 1 to 3 (running the scanner, reading its file, parsing the XML) happen outside:
  \<open>scan\<close> is their outcome, the parsed document or the exception of the step that failed.
  The \<^verbatim>\<open>catch\<close> covers them and step 4 alike.
\<close>

definition getActiveHosts :: "js_error + jsval \<Rightarrow> string list io" where
  "getActiveHosts scan =
     try_catch
       (io_bind (console_log (''Scanning '' @ SCAN_TARGET @ ''...'')) (\<lambda>_.
          io_bind (io_lift scan) (\<lambda>result.
            io_lift (extractHosts result))))
       (\<lambda>err.
          io_bind (console_error ''[Error] Scan failed: '' err) (\<lambda>_.
            io_return []))"

subsection \<open>\<^verbatim>\<open>checkForChanges\<close>\<close>

text \<open>
  \<^verbatim>\<open>for (const host of xs) { if (!other.has(host)) { out.push(host); } }\<close>
\<close>

fun collect_absent :: "string list \<Rightarrow> string list \<Rightarrow> string list \<Rightarrow> string list" where
  "collect_absent [] other out = out"
| "collect_absent (host # rest) other out =
     collect_absent rest other (if host \<notin> set other then out @ [host] else out)"

definition title_new :: string where
  "title_new = ''Network: New Devices''"

definition title_left :: string where
  "title_left = ''Network: Devices Left''"

definition body_new :: "string list \<Rightarrow> string" where
  "body_new newDevices =
     ''Found '' @ show_nat (length newDevices) @ '' new device(s):'' @ [CHR 0x0A]
       @ join_lines newDevices"

definition body_left :: "string list \<Rightarrow> string" where
  "body_left leftDevices =
     show_nat (length leftDevices) @ '' device(s) left:'' @ [CHR 0x0A] @ join_lines leftDevices"

text \<open>
  The comparison of the two sets (the flag and the two loops of the cycle): what arrived,
  what left, and whether the stored set was empty.
\<close>

record changes =
  isFirstScan :: bool
  newDevices :: "string list"
  leftDevices :: "string list"

definition compute_changes :: "string list \<Rightarrow> string list \<Rightarrow> changes" where
  "compute_changes previousHosts currentHosts =
     \<lparr> isFirstScan = (length previousHosts = 0),
       newDevices = collect_absent currentHosts previousHosts [],
       leftDevices = collect_absent previousHosts currentHosts [] \<rparr>"

text \<open>Part 1 of the cycle: the console.\<close>

definition log_changes :: "string list \<Rightarrow> string list \<Rightarrow> string list \<Rightarrow> unit io" where
  "log_changes currentHosts new left =
     (if length new > 0 \<or> length left > 0 then
        io_bind (log_each ''[+] NEW DEVICE: '' new) (\<lambda>_.
          log_each ''[-] DEVICE LEFT: '' left)
      else console_log (''No changes. '' @ show_nat (length currentHosts) @ '' hosts active.''))"

text \<open>Part 2 of the cycle: the desktop notifications, both inside one \<^verbatim>\<open>try\<close>.\<close>

definition send_notifications :: "notifier \<Rightarrow> bool \<Rightarrow> string list \<Rightarrow> string list \<Rightarrow> unit io" where
  "send_notifications notifier first new left =
     (if (length new > 0 \<or> length left > 0) \<and> \<not> first then
        try_catch
          (io_bind
             (if length new > 0
              then notify_send notifier title_new (body_new new)
              else io_return ()) (\<lambda>_.
             if length left > 0
             then notify_send notifier title_left (body_left left)
             else io_return ()))
          (\<lambda>err. console_error ''[Error] Failed to send notification: '' err)
      else io_return ())"

text \<open>
  One cycle. The global \<^verbatim>\<open>previousHosts\<close> is passed in, and the value the cycle
  resolves to is the set it assigns to \<^verbatim>\<open>previousHosts\<close> in its last statement; a cycle
  that rejects has not reached the assignment.
\<close>

definition checkForChanges :: "js_error + jsval \<Rightarrow> notifier \<Rightarrow> string list \<Rightarrow> string list io" where
  "checkForChanges scan notifier previousHosts =
     io_bind (getActiveHosts scan) (\<lambda>currentHosts.
       let ch = compute_changes previousHosts currentHosts
       in io_bind (log_changes currentHosts (newDevices ch) (leftDevices ch)) (\<lambda>_.
            io_bind (send_notifications notifier (isFirstScan ch) (newDevices ch) (leftDevices ch))
              (\<lambda>_. io_return currentHosts)))"

text \<open>
  Cycles one after the other, each starting when the one before has finished: every cycle
  has its own scan outcome and notifier, and reads the set the one before assigned.
\<close>

fun run_cycles :: "((js_error + jsval) \<times> notifier) list \<Rightarrow> string list \<Rightarrow> string list io" where
  "run_cycles [] previousHosts = io_return previousHosts"
| "run_cycles ((scan, notifier) # rest) previousHosts =
     io_bind (checkForChanges scan notifier previousHosts) (run_cycles rest)"

text \<open>The notifications among the effects of a computation.\<close>

fun is_notification :: "effect \<Rightarrow> bool" where
  "is_notification (NotifySend title body) = True"
| "is_notification _ = False"

fun is_log :: "effect \<Rightarrow> bool" where
  "is_log (ConsoleLog s) = True"
| "is_log _ = False"

definition notifications :: "'a io \<Rightarrow> effect list" where
  "notifications m = filter is_notification (fst m)"

subsection \<open>\<^verbatim>\<open>main\<close> and the timer\<close>

text \<open>
  \<^verbatim>\<open>main\<close> calls \<^verbatim>\<open>checkForChanges\<close>, awaits it, and only then registers it with
  \<^verbatim>\<open>setInterval\<close>. From then on the timer calls \<^verbatim>\<open>checkForChanges\<close> at every
  interval; the call returns a promise that nothing awaits. The scheduler's state is the
  number of calls of \<^verbatim>\<open>checkForChanges\<close> that have started and not yet settled, and
  whether the interval is registered.
\<close>

record sched =
  in_flight :: nat
  interval_set :: bool

text \<open>
  \<open>CycleDone\<close>: a cycle in flight settles. \<open>TimerFire\<close>: the interval elapses and the
  timer calls \<^verbatim>\<open>checkForChanges\<close>. A cycle that takes longer than the interval sees a
  \<open>TimerFire\<close> before its own \<open>CycleDone\<close>.
\<close>

datatype sched_event = CycleDone | TimerFire

text \<open>The state when \<^verbatim>\<open>main\<close> has made its first call and waits for it.\<close>

definition sched_init :: sched where
  "sched_init = \<lparr> in_flight = 1, interval_set = False \<rparr>"

text \<open>
  One event; \<open>None\<close> when it cannot happen in that state. When the awaited first cycle
  settles, \<^verbatim>\<open>main\<close> resumes and calls \<^verbatim>\<open>setInterval\<close>. The timer's callback is
  \<^verbatim>\<open>checkForChanges\<close> itself: nothing looks at the cycles in flight.
\<close>

fun sched_step :: "sched \<Rightarrow> sched_event \<Rightarrow> sched option" where
  "sched_step s CycleDone =
     (if in_flight s = 0 then None
      else Some \<lparr> in_flight = in_flight s - 1, interval_set = True \<rparr>)"
| "sched_step s TimerFire =
     (if interval_set s then Some (s\<lparr> in_flight := in_flight s + 1 \<rparr>) else None)"

fun sched_run :: "sched \<Rightarrow> sched_event list \<Rightarrow> sched option" where
  "sched_run s [] = Some s"
| "sched_run s (e # es) = (case sched_step s e of None \<Rightarrow> None | Some s' \<Rightarrow> sched_run s' es)"

subsection \<open>The report in the words of the specification\<close>

text \<open>
  Reading a property without ever throwing (\<^verbatim>\<open>undefined\<close> where there is nothing to
  read), to say what a host's status and addresses are, independently of the guards of the
  program.
\<close>

definition field :: "jsval \<Rightarrow> string \<Rightarrow> jsval" where
  "field v k = (case v of JObj kvs \<Rightarrow> (case map_of kvs k of None \<Rightarrow> JUndefined | Some x \<Rightarrow> x)
                | _ \<Rightarrow> JUndefined)"

definition first_elem :: "jsval \<Rightarrow> jsval" where
  "first_elem v =
     (case v of
        JArr xs \<Rightarrow> (case xs of [] \<Rightarrow> JUndefined | x # _ \<Rightarrow> x)
      | JStr s \<Rightarrow> (case s of [] \<Rightarrow> JUndefined | c # _ \<Rightarrow> JStr [c])
      | JObj kvs \<Rightarrow> (case map_of kvs ''0'' of None \<Rightarrow> JUndefined | Some x \<Rightarrow> x)
      | _ \<Rightarrow> JUndefined)"

text \<open>The host's status is explicitly "up".\<close>

definition status_up :: "jsval \<Rightarrow> bool" where
  "status_up host = (field (field (first_elem (field host ''status'')) ''$'') ''state'' = JStr ''up'')"

text \<open>The host's address entries, and the entries of one address family.\<close>

definition host_addresses :: "jsval \<Rightarrow> jsval list" where
  "host_addresses host = as_array (field host ''address'')"

definition of_family :: "string \<Rightarrow> jsval \<Rightarrow> bool" where
  "of_family ty addr = (field (field addr ''$'') ''addrtype'' = JStr ty)"

definition family_addresses :: "string \<Rightarrow> jsval \<Rightarrow> jsval list" where
  "family_addresses ty host = filter (of_family ty) (host_addresses host)"

text \<open>The host entries of a report: its host list, a single entry standing for itself.\<close>

definition report_hosts :: "jsval \<Rightarrow> jsval list" where
  "report_hosts result =
     (let host = field (field result ''nmaprun'') ''host''
      in if truthy host then as_array host else [])"

subsection \<open>Example reports and notifiers\<close>

text \<open>
  Host entries and reports as the parser builds them, for evaluating the program on
  concrete inputs, and three notifiers: one that always succeeds and two that fail for one
  of the two titles.
\<close>

definition host_entry :: "string \<Rightarrow> jsval list \<Rightarrow> jsval" where
  "host_entry state addrs =
     JObj [(''status'', JArr [JObj [(''$'', JObj [(''state'', JStr state)])]]),
           (''address'', JArr addrs)]"

definition ipv4_entry :: "string \<Rightarrow> jsval" where
  "ipv4_entry a = JObj [(''$'', JObj [(''addr'', JStr a), (''addrtype'', JStr ''ipv4'')])]"

definition mac_entry :: "string \<Rightarrow> string \<Rightarrow> jsval" where
  "mac_entry a v =
     JObj [(''$'', JObj [(''addr'', JStr a), (''addrtype'', JStr ''mac''), (''vendor'', JStr v)])]"

definition mac_entry_no_vendor :: "string \<Rightarrow> jsval" where
  "mac_entry_no_vendor a = JObj [(''$'', JObj [(''addr'', JStr a), (''addrtype'', JStr ''mac'')])]"

definition report_of :: "jsval \<Rightarrow> jsval" where
  "report_of hosts = JObj [(''nmaprun'', JObj [(''host'', hosts)])]"

definition host_acme :: jsval where
  "host_acme = host_entry ''up'' [ipv4_entry ''10.0.0.5'', mac_entry ''AA:BB:CC:DD:EE:FF'' ''Acme'']"

definition host_plain :: jsval where
  "host_plain = host_entry ''up'' [ipv4_entry ''10.0.0.9'']"

definition notifier_ok :: notifier where
  "notifier_ok title body = None"

definition notifier_new_fails :: notifier where
  "notifier_new_fails title body = (if title = title_new then Some NotifyError else None)"

definition notifier_left_fails :: notifier where
  "notifier_left_fails title body = (if title = title_left then Some NotifyError else None)"

definition host_down :: jsval where
  "host_down = host_entry ''down'' [ipv4_entry ''10.0.0.7'']"

definition host_mac_only :: jsval where
  "host_mac_only = host_entry ''up'' [mac_entry ''11:22:33:44:55:66'' ''Acme'']"

definition host_no_vendor :: jsval where
  "host_no_vendor = host_entry ''up'' [ipv4_entry ''10.0.0.8'', mac_entry_no_vendor ''11:22:33:44:55:66'']"

section \<open>Properties\<close>

subsection \<open>What the functions compute\<close>

lemma bind_e_simps [simp]: "bind_e (Inl e) k = Inl e" "bind_e (Inr v) k = k v"
  by (simp_all add: bind_e_def)

lemma get_field: "truthy v \<Longrightarrow> get v k = Inr (field v k)"
  by (cases v) (auto simp: field_def)

lemma index0_first: "truthy v \<Longrightarrow> index0 v = Inr (first_elem v)"
  by (cases v) (auto simp: first_elem_def)

lemma field_falsy: "\<not> truthy v \<Longrightarrow> field v k = JUndefined"
  by (cases v) (auto simp: field_def)

lemma first_falsy: "\<not> truthy v \<Longrightarrow> first_elem v = JUndefined"
  by (cases v) (auto simp: first_elem_def)

lemma host_is_up_eq: "host_is_up h = Inr (status_up h)"
  by (auto simp: host_is_up_def status_up_def get_field index0_first field_falsy first_falsy)

lemma addr_has_type_eq: "addr_has_type ty a = Inr (of_family ty a)"
  by (auto simp: addr_has_type_def of_family_def get_field field_falsy)

lemma filter_up_eq: "filter_up hs = Inr (filter status_up hs)"
  by (induction hs) (auto simp: host_is_up_eq)

lemma find_addr_eq:
  "find_addr ty as = Inr (case filter (of_family ty) as of [] \<Rightarrow> JUndefined | a # _ \<Rightarrow> a)"
  by (induction as) (auto simp: addr_has_type_eq)

lemma of_family_truthy: "of_family ty a \<Longrightarrow> truthy a \<and> truthy (field a ''$'')"
  by (cases a; cases "field a ''$''") (auto simp: of_family_def field_def split: option.splits)

lemma collect_absent_filter:
  "collect_absent xs other out = out @ filter (\<lambda>h. h \<notin> set other) xs"
  by (induction xs arbitrary: out) auto

lemma getActiveHosts_failed:
  "getActiveHosts (Inl e) =
     ([ConsoleLog (''Scanning '' @ SCAN_TARGET @ ''...''), ConsoleError ''[Error] Scan failed: '' e],
      Inr [])"
  by (simp add: getActiveHosts_def try_catch_def io_bind_def console_log_def io_lift_def
      console_error_def io_return_def)

lemma getActiveHosts_parsed:
  "getActiveHosts (Inr result) =
     (case extractHosts result of
        Inr ids \<Rightarrow> ([ConsoleLog (''Scanning '' @ SCAN_TARGET @ ''...'')], Inr ids)
      | Inl e \<Rightarrow> ([ConsoleLog (''Scanning '' @ SCAN_TARGET @ ''...''),
                   ConsoleError ''[Error] Scan failed: '' e], Inr []))"
  by (simp add: getActiveHosts_def try_catch_def io_bind_def console_log_def io_lift_def
      console_error_def io_return_def split: sum.splits)

lemma getActiveHosts_resolves: "\<exists>ids. snd (getActiveHosts scan) = Inr ids"
  by (cases scan) (auto simp: getActiveHosts_failed getActiveHosts_parsed split: sum.splits)

lemma log_each_eq: "log_each prefix xs = (map (\<lambda>x. ConsoleLog (prefix @ x)) xs, Inr ())"
  by (induction xs) (auto simp: io_return_def io_bind_def console_log_def)

lemma log_changes_eq:
  "log_changes cur new left =
     (if new \<noteq> [] \<or> left \<noteq> []
      then map (\<lambda>x. ConsoleLog (''[+] NEW DEVICE: '' @ x)) new
           @ map (\<lambda>x. ConsoleLog (''[-] DEVICE LEFT: '' @ x)) left
      else [ConsoleLog (''No changes. '' @ show_nat (length cur) @ '' hosts active.'')],
      Inr ())"
  by (auto simp: log_changes_def log_each_eq io_bind_def console_log_def)

lemma send_notifications_resolves: "snd (send_notifications notifier first new left) = Inr ()"
  by (auto simp: send_notifications_def try_catch_def io_bind_def notify_send_def io_return_def
      console_error_def split: option.splits)

lemma send_notifications_first: "send_notifications notifier True new left = ([], Inr ())"
  by (simp add: send_notifications_def io_return_def)

lemma checkForChanges_eq:
  assumes "getActiveHosts scan = (es, Inr cur)"
  shows "checkForChanges scan notifier prev =
     (es @ fst (log_changes cur (newDevices (compute_changes prev cur)) (leftDevices (compute_changes prev cur)))
         @ fst (send_notifications notifier (isFirstScan (compute_changes prev cur))
                 (newDevices (compute_changes prev cur)) (leftDevices (compute_changes prev cur))),
      Inr cur)"
proof -
  obtain ns where ns: "send_notifications notifier (isFirstScan (compute_changes prev cur))
                 (newDevices (compute_changes prev cur)) (leftDevices (compute_changes prev cur)) = (ns, Inr ())"
    using send_notifications_resolves by (metis prod.collapse)
  show ?thesis
    by (simp add: checkForChanges_def assms io_bind_def Let_def log_changes_eq ns io_return_def)
qed

lemma filter_hd_family:
  "filter (of_family ty) as = a # rest \<Longrightarrow> truthy a \<and> truthy (field a ''$'')"
  by (metis Cons_eq_filterD of_family_truthy)

lemma host_identifier_eq:
  assumes "truthy host"
  shows "host_identifier host =
    (case family_addresses ''ipv4'' host of
       [] \<Rightarrow> Inr None
     | ipObj # _ \<Rightarrow>
        (case family_addresses ''mac'' host of
           [] \<Rightarrow> bind_e (to_str (field (field ipObj ''$'') ''addr'')) (\<lambda>s1. Inr (Some (id_no_mac s1)))
         | macObj # _ \<Rightarrow>
             bind_e (to_str (field (field ipObj ''$'') ''addr'')) (\<lambda>s1.
               bind_e (to_str (field (field macObj ''$'') ''addr'')) (\<lambda>s2.
                 bind_e (to_str (if truthy (field (field macObj ''$'') ''vendor'')
                                 then field (field macObj ''$'') ''vendor'' else JStr ''Unknown''))
                   (\<lambda>s3. Inr (Some (id_with_mac s1 s2 s3)))))))"
proof (cases "family_addresses ''ipv4'' host")
  case Nil
  then show ?thesis
    using assms
    by (simp add: host_identifier_def get_field find_addr_eq family_addresses_def
        host_addresses_def)
next
  case (Cons ipObj rest)
  then have ip: "truthy ipObj" "truthy (field ipObj ''$'')"
    using filter_hd_family unfolding family_addresses_def by blast+
  show ?thesis
  proof (cases "family_addresses ''mac'' host")
    case Nil
    then show ?thesis
      using assms Cons ip
      by (simp add: host_identifier_def get_field find_addr_eq family_addresses_def
          host_addresses_def)
  next
    case (Cons macObj rest')
    then have mac: "truthy macObj" "truthy (field macObj ''$'')"
      using filter_hd_family unfolding family_addresses_def by blast+
    show ?thesis
      using assms \<open>family_addresses ''ipv4'' host = ipObj # rest\<close> Cons ip mac
      by (simp add: host_identifier_def get_field find_addr_eq family_addresses_def
          host_addresses_def)
  qed
qed

lemma status_up_truthy: "status_up h \<Longrightarrow> truthy h"
  by (cases h) (auto simp: status_up_def field_def first_elem_def)

lemma getActiveHosts_effects_quiet: "filter is_notification (fst (getActiveHosts scan)) = []"
  by (cases scan) (auto simp: getActiveHosts_failed getActiveHosts_parsed split: sum.splits)

lemma log_changes_quiet: "filter is_notification (fst (log_changes cur new left)) = []"
  by (auto simp: log_changes_eq filter_empty_conv)

lemma log_changes_logs: "filter is_log (fst (log_changes cur new left)) \<noteq> []"
  by (cases new; cases left) (simp_all add: log_changes_eq)

lemma send_notifications_attempts:
  "filter is_notification (fst (send_notifications notifier first new left)) =
     (if first then []
      else (if new \<noteq> [] then [NotifySend title_new (body_new new)] else [])
         @ (if left \<noteq> [] \<and> (new = [] \<or> notifier title_new (body_new new) = None)
            then [NotifySend title_left (body_left left)] else []))"
  by (auto simp: send_notifications_def try_catch_def io_bind_def notify_send_def io_return_def
      console_error_def split: option.splits)

lemma checkForChanges_cur:
  assumes "snd (getActiveHosts scan) = Inr cur"
  shows "checkForChanges scan notifier prev =
     (fst (getActiveHosts scan)
        @ fst (log_changes cur (newDevices (compute_changes prev cur)) (leftDevices (compute_changes prev cur)))
        @ fst (send_notifications notifier (isFirstScan (compute_changes prev cur))
                 (newDevices (compute_changes prev cur)) (leftDevices (compute_changes prev cur))),
      Inr cur)"
  using checkForChanges_eq [of scan "fst (getActiveHosts scan)" cur notifier prev] assms
  by (metis prod.collapse)

lemma checkForChanges_commits: "snd (checkForChanges scan notifier prev) = snd (getActiveHosts scan)"
  using getActiveHosts_resolves [of scan] by (auto simp: checkForChanges_cur)

lemma compute_changes_simps:
  "isFirstScan (compute_changes prev cur) = (prev = [])"
  "newDevices (compute_changes prev cur) = filter (\<lambda>h. h \<notin> set prev) cur"
  "leftDevices (compute_changes prev cur) = filter (\<lambda>h. h \<notin> set cur) prev"
  by (simp_all add: compute_changes_def collect_absent_filter)

lemma checkForChanges_notifications:
  assumes "snd (getActiveHosts scan) = Inr cur"
  shows "notifications (checkForChanges scan notifier prev) =
     filter is_notification (fst (send_notifications notifier (prev = [])
        (filter (\<lambda>h. h \<notin> set prev) cur) (filter (\<lambda>h. h \<notin> set cur) prev)))"
  by (simp add: notifications_def checkForChanges_cur [OF assms] getActiveHosts_effects_quiet
      log_changes_quiet compute_changes_simps)

lemma first_cycle_quiet: "notifications (checkForChanges scan notifier []) = []"
proof -
  obtain cur where "snd (getActiveHosts scan) = Inr cur"
    using getActiveHosts_resolves by blast
  then show ?thesis
    by (simp add: checkForChanges_notifications send_notifications_first)
qed

lemma io_bind_resolved: "snd m = Inr v \<Longrightarrow> io_bind m k = (fst m @ fst (k v), snd (k v))"
  by (cases m) (auto simp: io_bind_def split: prod.splits)

lemma io_bind_return: "io_bind m io_return = m"
  by (cases m) (auto simp: io_bind_def io_return_def split: sum.splits)

lemma run_two_cycles:
  assumes "snd (checkForChanges scan1 n1 prev) = Inr mid"
  shows "run_cycles [(scan1, n1), (scan2, n2)] prev =
     (fst (checkForChanges scan1 n1 prev) @ fst (checkForChanges scan2 n2 mid),
      snd (checkForChanges scan2 n2 mid))"
proof -
  have "run_cycles [] = (io_return :: string list \<Rightarrow> string list io)"
    by (rule ext) simp
  then have "run_cycles [(scan2, n2)] mid = checkForChanges scan2 n2 mid"
    by (simp add: io_bind_return)
  then show ?thesis
    using io_bind_resolved [OF assms, of "run_cycles [(scan2, n2)]"] by simp
qed

lemmas example_defs = host_entry_def ipv4_entry_def mac_entry_def mac_entry_no_vendor_def
  report_of_def host_acme_def host_plain_def

lemmas extract_defs = extractHosts_def filter_up.simps host_is_up_def add_hosts.simps
  host_identifier_def find_addr.simps addr_has_type_def set_add_def id_with_mac_def id_no_mac_def
  bind_e_simps

lemma extract_plain: "extractHosts (report_of (JArr [host_plain])) = Inr [''10.0.0.9 (No MAC)'']"
  by (simp add: example_defs extract_defs)

lemma extract_acme: "extractHosts (report_of (JArr [host_acme])) = Inr [''10.0.0.5 (AA:BB:CC:DD:EE:FF - Acme)'']"
  by (simp add: example_defs extract_defs)

lemma titles_differ: "title_new \<noteq> title_left"
  by (simp add: title_new_def title_left_def)

lemma interval_stays_set:
  "sched_run s0 events = Some s \<Longrightarrow> interval_set s0 \<Longrightarrow> interval_set s"
proof (induction events arbitrary: s0)
  case Nil
  then show ?case by simp
next
  case (Cons ev events)
  then show ?case
    by (cases ev) (auto split: if_splits)
qed

lemma sched_run_before_interval:
  assumes "sched_run s0 events = Some s" and "\<not> interval_set s"
  shows "s = s0"
proof (cases events)
  case Nil
  with assms show ?thesis by simp
next
  case (Cons ev rest)
  with assms obtain s1 where s1: "sched_step s0 ev = Some s1" "sched_run s1 rest = Some s"
    by (auto split: option.splits)
  have "interval_set s1"
    using s1(1) by (cases ev) (auto split: if_splits)
  with s1(2) assms(2) show ?thesis
    using interval_stays_set by blast
qed

lemma extractHosts_eq:
  "extractHosts result =
     (if result = JUndefined \<or> result = JNull then Inl TypeError
      else add_hosts (filter status_up (report_hosts result)) [])"
proof (cases "truthy result")
  case True
  then have "result \<noteq> JUndefined" "result \<noteq> JNull" by auto
  then show ?thesis
    using True
    by (auto simp: extractHosts_def get_field report_hosts_def filter_up_eq field_falsy Let_def)
next
  case False
  then show ?thesis
    by (cases result) (auto simp: extractHosts_def report_hosts_def field_def)
qed

lemma report_hosts_absent: "result = JUndefined \<or> result = JNull \<Longrightarrow> report_hosts result = []"
  by (auto simp: report_hosts_def field_def)

lemma family_addresses_absent: "field h ''address'' = JUndefined \<Longrightarrow> family_addresses ty h = []"
  by (simp add: family_addresses_def host_addresses_def of_family_def field_def)

lemma add_hosts_set:
  "add_hosts hs acc = Inr ids \<Longrightarrow>
     set ids = set acc \<union> {i. \<exists>h\<in>set hs. host_identifier h = Inr (Some i)}"
proof (induction hs arbitrary: acc)
  case Nil
  then show ?case by simp
next
  case (Cons h hs)
  show ?case
  proof (cases "host_identifier h")
    case (Inl e)
    with Cons.prems show ?thesis by simp
  next
    case (Inr r)
    show ?thesis
    proof (cases r)
      case None
      with Inr Cons.prems have "add_hosts hs acc = Inr ids" by simp
      from Cons.IH [OF this] show ?thesis using Inr None by auto
    next
      case (Some i)
      with Inr Cons.prems have "add_hosts hs (set_add acc i) = Inr ids" by simp
      from Cons.IH [OF this] show ?thesis using Inr Some by (auto simp: set_add_def)
    qed
  qed
qed

lemma add_hosts_resolves:
  "\<forall>h\<in>set hs. \<forall>e. host_identifier h \<noteq> Inl e \<Longrightarrow> \<exists>ids. add_hosts hs acc = Inr ids"
proof (induction hs arbitrary: acc)
  case Nil
  then show ?case by simp
next
  case (Cons h hs)
  then obtain r where "host_identifier h = Inr r"
    by (cases "host_identifier h") auto
  with Cons show ?case by simp
qed

lemma bind_e_Inr_iff: "bind_e m k = Inr y \<longleftrightarrow> (\<exists>x. m = Inr x \<and> k x = Inr y)"
  by (cases m) auto

lemma host_identifier_None_iff:
  "truthy h \<Longrightarrow> host_identifier h = Inr None \<longleftrightarrow> family_addresses ''ipv4'' h = []"
  by (auto simp: host_identifier_eq bind_e_Inr_iff split: list.splits)

lemma add_hosts_skip:
  "truthy h \<Longrightarrow> family_addresses ''ipv4'' h = [] \<Longrightarrow> add_hosts (h # hs) acc = add_hosts hs acc"
  by (simp add: host_identifier_eq)

lemma add_hosts_qualifying:
  "add_hosts (filter status_up hs) acc
     = add_hosts (filter (\<lambda>h. status_up h \<and> family_addresses ''ipv4'' h \<noteq> []) hs) acc"
proof (induction hs arbitrary: acc)
  case Nil
  then show ?case by simp
next
  case (Cons h hs)
  then show ?case
    by (auto simp: add_hosts_skip status_up_truthy simp del: add_hosts.simps)
      (simp add: Cons.IH)
qed

lemma report_hosts_report_of: "report_hosts (report_of (JArr hs)) = hs"
  by (simp add: report_hosts_def report_of_def field_def)

lemma getActiveHosts_snd:
  "snd (getActiveHosts (Inr result)) =
     (case add_hosts (filter status_up (report_hosts result)) [] of
        Inl e \<Rightarrow> Inr [] | Inr ids \<Rightarrow> Inr ids)"
  by (auto simp: getActiveHosts_parsed extractHosts_eq report_hosts_absent split: sum.splits)

lemmas spec_defs = status_up_def field_def first_elem_def family_addresses_def host_addresses_def
  of_family_def

lemmas example_defs2 = example_defs host_down_def host_mac_only_def host_no_vendor_def

lemma ids_never_collide: "id_with_mac ip mac vendor \<noteq> id_no_mac ip"
proof
  assume "id_with_mac ip mac vendor = id_no_mac ip"
  then have "mac @ '' - '' @ vendor @ '')'' = ''No MAC)''"
    by (simp add: id_with_mac_def id_no_mac_def)
  moreover have "CHR ''-'' \<in> set (mac @ '' - '' @ vendor @ '')'')"
    by simp
  ultimately have "CHR ''-'' \<in> set ''No MAC)''"
    by (simp only:)
  then show False by simp
qed

subsection \<open>The claims\<close>

text \<open>
  A failed scan followed by a successful one, starting from one known host that is found
  again. The failing cycle assigns the empty set; the cycle after it finds the host,
  assigns it, and sends nothing: over the two cycles the only notification is the one for
  the departure.
\<close>

theorem recovery_burst_counterexample:
  "snd (checkForChanges (Inl ExecError) notifier_ok [''10.0.0.9 (No MAC)'']) = Inr []
   \<and> snd (checkForChanges (Inr (report_of (JArr [host_plain]))) notifier_ok [])
       = Inr [''10.0.0.9 (No MAC)'']
   \<and> notifications (checkForChanges (Inr (report_of (JArr [host_plain]))) notifier_ok []) = []
   \<and> notifications (run_cycles [(Inl ExecError, notifier_ok),
                        (Inr (report_of (JArr [host_plain])), notifier_ok)] [''10.0.0.9 (No MAC)''])
       = [NotifySend title_left (body_left [''10.0.0.9 (No MAC)''])]"
proof -
  have 1: "snd (checkForChanges (Inl ExecError) notifier_ok [''10.0.0.9 (No MAC)'']) = Inr []"
    by (simp add: checkForChanges_commits getActiveHosts_failed)
  have 2: "snd (getActiveHosts (Inr (report_of (JArr [host_plain])))) = Inr [''10.0.0.9 (No MAC)'']"
    by (simp add: getActiveHosts_parsed extract_plain)
  have 3: "snd (getActiveHosts (Inl ExecError)) = Inr []"
    by (simp add: getActiveHosts_failed)
  have 4: "snd (checkForChanges (Inr (report_of (JArr [host_plain]))) notifier_ok [])
       = Inr [''10.0.0.9 (No MAC)'']"
    by (simp add: checkForChanges_commits 2)
  have 5: "notifications (checkForChanges (Inr (report_of (JArr [host_plain]))) notifier_ok []) = []"
    by (rule first_cycle_quiet)
  have 6: "notifications (run_cycles [(Inl ExecError, notifier_ok),
                        (Inr (report_of (JArr [host_plain])), notifier_ok)] [''10.0.0.9 (No MAC)''])
       = [NotifySend title_left (body_left [''10.0.0.9 (No MAC)''])]"
    unfolding run_two_cycles [OF 1]
    by (simp add: notifications_def
        checkForChanges_notifications [OF 3, unfolded notifications_def]
        first_cycle_quiet [unfolded notifications_def] send_notifications_attempts)
  from 1 4 5 6 show ?thesis
    by (intro conjI)
qed

text \<open>
  Claim C1, as the program has it. When the stored set is not empty and the scan fails, the
  cycle assigns the empty set and sends exactly one notification, "Network: Devices Left",
  whose body counts and lists every host of the stored set. The cycle that follows starts
  from the empty set, so it sends no notification whatever its scan finds: over the two
  cycles the departure notification stays the only one, and the second cycle assigns what
  its scan returned.
\<close>

theorem failed_scan_departure_burst_then_silence:
  assumes "previous \<noteq> []"
  shows "snd (checkForChanges (Inl e) notifier1 previous) = Inr []
    \<and> notifications (checkForChanges (Inl e) notifier1 previous)
         = [NotifySend title_left (body_left previous)]
    \<and> body_left previous
         = show_nat (length previous) @ '' device(s) left:'' @ [CHR 0x0A] @ join_lines previous
    \<and> notifications (run_cycles [(Inl e, notifier1), (scan2, notifier2)] previous)
         = [NotifySend title_left (body_left previous)]
    \<and> snd (run_cycles [(Inl e, notifier1), (scan2, notifier2)] previous) = snd (getActiveHosts scan2)"
proof -
  have failed: "snd (getActiveHosts (Inl e)) = Inr []"
    by (simp add: getActiveHosts_failed)
  have commit: "snd (checkForChanges (Inl e) notifier1 previous) = Inr []"
    by (simp add: checkForChanges_commits failed)
  have burst: "notifications (checkForChanges (Inl e) notifier1 previous)
         = [NotifySend title_left (body_left previous)]"
    using assms by (simp add: checkForChanges_notifications [OF failed] send_notifications_attempts)
  have "notifications (run_cycles [(Inl e, notifier1), (scan2, notifier2)] previous)
         = notifications (checkForChanges (Inl e) notifier1 previous)
           @ notifications (checkForChanges scan2 notifier2 [])"
    unfolding run_two_cycles [OF commit] by (simp add: notifications_def)
  moreover have "snd (run_cycles [(Inl e, notifier1), (scan2, notifier2)] previous)
         = snd (getActiveHosts scan2)"
    unfolding run_two_cycles [OF commit] by (simp add: checkForChanges_commits)
  ultimately show ?thesis
    by (simp add: commit burst first_cycle_quiet body_left_def)
qed

theorem failed_scan_departure_burst_then_silence_witness:
  "[''10.0.0.9 (No MAC)''] \<noteq> []
   \<and> notifications (run_cycles [(Inl ExecError, notifier_ok),
         (Inr (report_of (JArr [host_acme])), notifier_ok)] [''10.0.0.9 (No MAC)''])
       = [NotifySend title_left (body_left [''10.0.0.9 (No MAC)''])]"
  using failed_scan_departure_burst_then_silence [of "[''10.0.0.9 (No MAC)'']" ExecError notifier_ok
      "Inr (report_of (JArr [host_acme]))" notifier_ok]
  by simp

text \<open>
  One host left and another arrived, and \<^verbatim>\<open>notify-send\<close> fails for the "New Devices"
  notification: the exception leaves the \<^verbatim>\<open>try\<close> block, and the "Devices Left"
  notification is not attempted although a device left.
\<close>

theorem failed_new_notification_counterexample:
  "leftDevices (compute_changes [''10.0.0.5 (AA:BB:CC:DD:EE:FF - Acme)''] [''10.0.0.9 (No MAC)''])
     = [''10.0.0.5 (AA:BB:CC:DD:EE:FF - Acme)'']
   \<and> notifications (checkForChanges (Inr (report_of (JArr [host_plain]))) notifier_new_fails
        [''10.0.0.5 (AA:BB:CC:DD:EE:FF - Acme)''])
     = [NotifySend title_new (body_new [''10.0.0.9 (No MAC)''])]"
proof -
  have cur: "snd (getActiveHosts (Inr (report_of (JArr [host_plain])))) = Inr [''10.0.0.9 (No MAC)'']"
    by (simp add: getActiveHosts_parsed extract_plain)
  show ?thesis
    by (simp add: checkForChanges_notifications [OF cur] send_notifications_attempts
        compute_changes_simps notifier_new_fails_def)
qed

text \<open>
  Claim C2, as the program has it. Whatever the notifier does, the cycle resolves and
  assigns the set its scan returned, and the notification step never throws. A failed
  "New Devices" notification is logged and ends the notification step. A failed "Devices
  Left" notification is logged after the "New Devices" notification, when there was one,
  has been sent.
\<close>

theorem notification_failure_is_contained:
  "snd (checkForChanges scan notifier previous) = snd (getActiveHosts scan)
   \<and> (new \<noteq> [] \<and> notifier title_new (body_new new) = Some e \<longrightarrow>
        fst (send_notifications notifier False new left)
          = [NotifySend title_new (body_new new),
             ConsoleError ''[Error] Failed to send notification: '' e])
   \<and> (left \<noteq> [] \<and> (new = [] \<or> notifier title_new (body_new new) = None)
        \<and> notifier title_left (body_left left) = Some e \<longrightarrow>
        fst (send_notifications notifier False new left)
          = (if new = [] then [] else [NotifySend title_new (body_new new)])
            @ [NotifySend title_left (body_left left),
               ConsoleError ''[Error] Failed to send notification: '' e])
   \<and> snd (send_notifications notifier first new left) = Inr ()"
proof -
  have "new \<noteq> [] \<and> notifier title_new (body_new new) = Some e \<longrightarrow>
        fst (send_notifications notifier False new left)
          = [NotifySend title_new (body_new new),
             ConsoleError ''[Error] Failed to send notification: '' e]"
    by (simp add: send_notifications_def try_catch_def io_bind_def notify_send_def
        console_error_def)
  moreover have "left \<noteq> [] \<and> (new = [] \<or> notifier title_new (body_new new) = None)
        \<and> notifier title_left (body_left left) = Some e \<longrightarrow>
        fst (send_notifications notifier False new left)
          = (if new = [] then [] else [NotifySend title_new (body_new new)])
            @ [NotifySend title_left (body_left left),
               ConsoleError ''[Error] Failed to send notification: '' e]"
    by (auto simp: send_notifications_def try_catch_def io_bind_def notify_send_def
        console_error_def io_return_def)
  ultimately show ?thesis
    by (simp only: checkForChanges_commits send_notifications_resolves simp_thms)
qed

theorem notification_failure_is_contained_witness:
  "fst (send_notifications notifier_new_fails False [''10.0.0.9 (No MAC)''] [''10.0.0.5 (No MAC)''])
     = [NotifySend title_new (body_new [''10.0.0.9 (No MAC)'']),
        ConsoleError ''[Error] Failed to send notification: '' NotifyError]
   \<and> fst (send_notifications notifier_left_fails False [''10.0.0.9 (No MAC)''] [''10.0.0.5 (No MAC)''])
     = [NotifySend title_new (body_new [''10.0.0.9 (No MAC)'']),
        NotifySend title_left (body_left [''10.0.0.5 (No MAC)'']),
        ConsoleError ''[Error] Failed to send notification: '' NotifyError]"
  using notification_failure_is_contained [of "Inl ExecError" notifier_new_fails "[]"
      "[''10.0.0.9 (No MAC)'']" NotifyError "[''10.0.0.5 (No MAC)'']" True]
    notification_failure_is_contained [of "Inl ExecError" notifier_left_fails "[]"
      "[''10.0.0.9 (No MAC)'']" NotifyError "[''10.0.0.5 (No MAC)'']" True]
  by (simp add: notifier_new_fails_def notifier_left_fails_def titles_differ)

text \<open>
  The first cycle settles, the timer fires, and it fires again before the cycle it started
  has settled: two cycles are in flight.
\<close>

theorem overlapping_cycles_counterexample:
  "sched_run sched_init [CycleDone, TimerFire, TimerFire]
     = Some \<lparr> in_flight = 2, interval_set = True \<rparr>"
  by (simp add: sched_init_def)

text \<open>
  Claim C3, as the program has it. Until the first cycle has settled the interval is not
  registered and the timer cannot fire, so nothing overlaps the first cycle. Once the
  interval is registered, every firing of the timer starts a cycle, whatever the number of
  cycles in flight.
\<close>

theorem timer_starts_cycles_unconditionally:
  assumes "sched_run sched_init events = Some s"
  shows "if interval_set s
         then sched_step s TimerFire = Some (s\<lparr> in_flight := in_flight s + 1 \<rparr>)
         else s = sched_init \<and> sched_step s TimerFire = None"
  using sched_run_before_interval [OF assms] by (auto simp: sched_init_def)

theorem timer_starts_cycles_unconditionally_witness:
  "sched_run sched_init [CycleDone, TimerFire] = Some \<lparr> in_flight = 1, interval_set = True \<rparr>
   \<and> sched_step \<lparr> in_flight = 1, interval_set = True \<rparr> TimerFire
       = Some \<lparr> in_flight = 2, interval_set = True \<rparr>"
proof -
  have run: "sched_run sched_init [CycleDone, TimerFire] = Some \<lparr> in_flight = 1, interval_set = True \<rparr>"
    by (simp add: sched_init_def)
  show ?thesis
    using timer_starts_cycles_unconditionally [OF run] run by simp
qed

text \<open>
  Claim C4. The arrivals are the elements of the current set that are not in the previous
  one, in the order of the current set; the departures are the elements of the previous set
  that are not in the current one; the first-scan flag says that the previous set is empty.
  The comparison is a function of the two sets alone, and the set the cycle assigns at its
  end is the one the scan returned, unchanged.
\<close>

theorem diff_is_set_difference:
  "newDevices (compute_changes previous current) = filter (\<lambda>h. h \<notin> set previous) current
   \<and> leftDevices (compute_changes previous current) = filter (\<lambda>h. h \<notin> set current) previous
   \<and> set (newDevices (compute_changes previous current)) = set current - set previous
   \<and> set (leftDevices (compute_changes previous current)) = set previous - set current
   \<and> isFirstScan (compute_changes previous current) = (set previous = {})
   \<and> snd (checkForChanges scan notifier previous) = snd (getActiveHosts scan)"
  by (auto simp: compute_changes_simps checkForChanges_commits)

text \<open>
  Claim C5. When the first-scan flag is true, the notification step does nothing, whatever
  the arrivals and departures, and the cycle sends no notification; the console part still
  writes at least one line.
\<close>

theorem first_scan_never_notifies:
  assumes "isFirstScan (compute_changes previous current)"
  shows "fst (send_notifications notifier (isFirstScan (compute_changes previous current)) new left) = []
     \<and> notifications (checkForChanges scan notifier previous) = []
     \<and> filter is_log (fst (log_changes current new left)) \<noteq> []
     \<and> filter is_log (fst (checkForChanges scan notifier previous)) \<noteq> []"
proof -
  have prev: "previous = []"
    using assms by (simp add: compute_changes_simps)
  obtain cur where cur: "snd (getActiveHosts scan) = Inr cur"
    using getActiveHosts_resolves by blast
  have "filter is_log (fst (checkForChanges scan notifier previous)) \<noteq> []"
    using log_changes_logs by (simp add: checkForChanges_cur [OF cur])
  then show ?thesis
    using assms by (simp add: send_notifications_first prev first_cycle_quiet log_changes_logs)
qed

theorem first_scan_never_notifies_witness:
  "isFirstScan (compute_changes [] [''10.0.0.9 (No MAC)''])
   \<and> notifications (checkForChanges (Inr (report_of (JArr [host_acme, host_plain]))) notifier_ok []) = []"
  using first_scan_never_notifies [of "[]" "[''10.0.0.9 (No MAC)'']" notifier_ok "[]" "[]"
      "Inr (report_of (JArr [host_acme, host_plain]))"]
  by (simp add: compute_changes_def)

text \<open>
  Claim C6. When the scanner, the reading of its file or the parser fails with any
  exception, the cycle writes the error to the console, goes on with the empty set through
  the comparison, the console part and the notification step, and assigns the empty set.
  A parsed document on which the extraction throws is treated the same way. Every cycle
  resolves, with the set it assigns.
\<close>

theorem failed_scan_commits_empty_set:
  "checkForChanges (Inl e) notifier previous =
     ([ConsoleLog (''Scanning '' @ SCAN_TARGET @ ''...''), ConsoleError ''[Error] Scan failed: '' e]
        @ fst (log_changes [] (newDevices (compute_changes previous []))
                 (leftDevices (compute_changes previous [])))
        @ fst (send_notifications notifier (isFirstScan (compute_changes previous []))
                 (newDevices (compute_changes previous [])) (leftDevices (compute_changes previous []))),
      Inr [])
   \<and> (extractHosts result = Inl e \<longrightarrow>
        checkForChanges (Inr result) notifier previous = checkForChanges (Inl e) notifier previous)
   \<and> (\<exists>ids. snd (checkForChanges scan notifier previous) = Inr ids)"
proof -
  have "checkForChanges (Inr result) notifier previous = checkForChanges (Inl e) notifier previous"
    if "extractHosts result = Inl e"
    using that by (simp add: checkForChanges_def getActiveHosts_failed getActiveHosts_parsed)
  moreover have "\<exists>ids. snd (checkForChanges scan notifier previous) = Inr ids"
    using getActiveHosts_resolves by (simp add: checkForChanges_commits)
  ultimately show ?thesis
    using checkForChanges_eq [OF getActiveHosts_failed, of e notifier previous] by simp
qed

theorem failed_scan_commits_empty_set_witness:
  "extractHosts JNull = Inl TypeError
   \<and> checkForChanges (Inr JNull) notifier_ok [''10.0.0.9 (No MAC)'']
       = checkForChanges (Inl TypeError) notifier_ok [''10.0.0.9 (No MAC)'']"
  using failed_scan_commits_empty_set [of TypeError notifier_ok "[''10.0.0.9 (No MAC)'']" JNull
      "Inl ExecError"]
  by (simp add: extractHosts_def)

text \<open>
  Claim C7. \<^verbatim>\<open>getActiveHosts\<close> always resolves with a set. A report without a host
  list gives the empty set; a host list that is not an array is read as the list of that
  one entry; a host without a status is dropped by the filter and a host without an address
  list, or without an IPv4 entry in it, is skipped, the other hosts being treated as if it
  were not there.
\<close>

theorem normalization_never_raises:
  "(\<exists>ids. snd (getActiveHosts scan) = Inr ids)
   \<and> (\<not> truthy (field (field result ''nmaprun'') ''host'') \<longrightarrow>
        snd (getActiveHosts (Inr result)) = Inr [])
   \<and> (truthy h \<and> as_array h = [h] \<longrightarrow>
        extractHosts (report_of h) = extractHosts (report_of (JArr [h])))
   \<and> (field h ''status'' = JUndefined \<longrightarrow> filter_up (h # hs) = filter_up hs)
   \<and> (field h ''address'' = JUndefined \<longrightarrow> family_addresses ''ipv4'' h = [])
   \<and> (truthy h \<and> family_addresses ''ipv4'' h = [] \<longrightarrow>
        add_hosts (h # hs) activeHosts = add_hosts hs activeHosts)"
proof -
  have a: "\<exists>ids. snd (getActiveHosts scan) = Inr ids"
    by (rule getActiveHosts_resolves)
  have b: "snd (getActiveHosts (Inr result)) = Inr []"
    if "\<not> truthy (field (field result ''nmaprun'') ''host'')"
    using that
    by (auto simp: getActiveHosts_parsed extractHosts_eq report_hosts_def split: sum.splits)
  have c: "extractHosts (report_of h) = extractHosts (report_of (JArr [h]))"
    if "truthy h \<and> as_array h = [h]"
    using that by (simp add: extractHosts_eq report_of_def report_hosts_def field_def)
  have d: "filter_up (h # hs) = filter_up hs" if "field h ''status'' = JUndefined"
    using that by (simp add: filter_up_eq status_up_def first_elem_def field_def)
  have e: "add_hosts (h # hs) activeHosts = add_hosts hs activeHosts"
    if "truthy h \<and> family_addresses ''ipv4'' h = []"
    using that by (simp add: host_identifier_eq)
  show ?thesis
    using a b c d e family_addresses_absent by blast
qed

theorem normalization_never_raises_witness:
  "snd (getActiveHosts (Inr (JObj []))) = Inr []
   \<and> extractHosts (report_of (JObj [])) = extractHosts (report_of (JArr [JObj []]))
   \<and> filter_up [JObj [], host_plain] = filter_up [host_plain]
   \<and> add_hosts [JObj [], host_plain] [] = add_hosts [host_plain] []"
  using normalization_never_raises [of "Inl ExecError" "JObj []" "JObj []" "[host_plain]" "[]"]
  by (simp add: field_def family_addresses_def host_addresses_def of_family_def)

text \<open>
  Claim C8. Every element of the set returned is the identifier of a host of the report
  whose status is "up" and that has an IPv4 address entry: a host that is down, has no
  status or has no IPv4 entry contributes nothing, and the set is the one the report gives
  with all such hosts removed. When the identifier of every host that is up can be
  printed (the attribute values the parser produces are strings, which always can), each
  host that is up and has an IPv4 entry has its identifier in the set.
\<close>

theorem identity_set_is_up_hosts_with_ipv4:
  "\<exists>ids. snd (getActiveHosts (Inr result)) = Inr ids
     \<and> (\<forall>i\<in>set ids. \<exists>h\<in>set (report_hosts result).
           status_up h \<and> family_addresses ''ipv4'' h \<noteq> [] \<and> host_identifier h = Inr (Some i))
     \<and> ((\<forall>h\<in>set (report_hosts result). status_up h \<longrightarrow> (\<forall>e. host_identifier h \<noteq> Inl e)) \<longrightarrow>
          (\<forall>h\<in>set (report_hosts result).
             status_up h \<and> family_addresses ''ipv4'' h \<noteq> [] \<longrightarrow>
               (\<exists>i\<in>set ids. host_identifier h = Inr (Some i))))
     \<and> snd (getActiveHosts (Inr result))
         = snd (getActiveHosts (Inr (report_of (JArr
             (filter (\<lambda>h. status_up h \<and> family_addresses ''ipv4'' h \<noteq> []) (report_hosts result))))))"
proof -
  let ?ups = "filter status_up (report_hosts result)"
  let ?Q = "\<lambda>h. status_up h \<and> family_addresses ''ipv4'' h \<noteq> []"
  let ?printable = "\<forall>h\<in>set (report_hosts result). status_up h \<longrightarrow> (\<forall>e. host_identifier h \<noteq> Inl e)"
  have "filter status_up (filter ?Q (report_hosts result)) = filter ?Q (report_hosts result)"
    by (rule filter_cong [OF refl, THEN trans [OF filter_filter]]) auto
  then have same: "snd (getActiveHosts (Inr result))
         = snd (getActiveHosts (Inr (report_of (JArr (filter ?Q (report_hosts result))))))"
    by (simp add: getActiveHosts_snd report_hosts_report_of add_hosts_qualifying [symmetric])
  have some_ipv4: "family_addresses ''ipv4'' h \<noteq> []"
    if "status_up h" "host_identifier h = Inr (Some i)" for h i
    using host_identifier_None_iff [OF status_up_truthy [OF that(1)]] that(2) by auto
  show ?thesis
  proof (cases "add_hosts ?ups []")
    case (Inl e)
    then have res: "snd (getActiveHosts (Inr result)) = Inr []"
      by (simp add: getActiveHosts_snd)
    have "\<not> ?printable"
    proof
      assume ?printable
      then have "\<forall>h\<in>set ?ups. \<forall>e. host_identifier h \<noteq> Inl e" by simp
      then show False
        using add_hosts_resolves [of ?ups "[]"] Inl by auto
    qed
    moreover have "\<forall>i\<in>set ([] :: string list). \<exists>h\<in>set (report_hosts result).
           ?Q h \<and> host_identifier h = Inr (Some i)"
      by simp
    ultimately show ?thesis
      using res same by blast
  next
    case (Inr ids)
    then have res: "snd (getActiveHosts (Inr result)) = Inr ids"
      by (simp add: getActiveHosts_snd)
    have set_ids: "set ids = {i. \<exists>h\<in>set ?ups. host_identifier h = Inr (Some i)}"
      using add_hosts_set [OF Inr] by simp
    have only: "\<forall>i\<in>set ids. \<exists>h\<in>set (report_hosts result). ?Q h \<and> host_identifier h = Inr (Some i)"
      using set_ids some_ipv4 by auto
    have incl: "\<exists>i\<in>set ids. host_identifier h = Inr (Some i)"
      if p: ?printable and h: "h \<in> set (report_hosts result)" and q: "?Q h" for h
    proof -
      from p h q obtain r where r: "host_identifier h = Inr r"
        by (cases "host_identifier h") auto
      with q have "r \<noteq> None"
        using host_identifier_None_iff [of h] status_up_truthy by auto
      then obtain i where "host_identifier h = Inr (Some i)"
        using r by auto
      with h q set_ids show ?thesis by auto
    qed
    show ?thesis
      using res only incl same by blast
  qed
qed

theorem identity_set_is_up_hosts_with_ipv4_witness:
  "report_hosts (report_of (JArr [host_acme, host_down, host_mac_only]))
     = [host_acme, host_down, host_mac_only]
   \<and> status_up host_acme \<and> family_addresses ''ipv4'' host_acme \<noteq> []
   \<and> \<not> status_up host_down
   \<and> status_up host_mac_only \<and> family_addresses ''ipv4'' host_mac_only = []
   \<and> snd (getActiveHosts (Inr (report_of (JArr [host_acme, host_down, host_mac_only]))))
       = snd (getActiveHosts (Inr (report_of (JArr [host_acme]))))
   \<and> snd (getActiveHosts (Inr (report_of (JArr [host_acme]))))
       = Inr [''10.0.0.5 (AA:BB:CC:DD:EE:FF - Acme)'']"
proof -
  let ?r = "report_of (JArr [host_acme, host_down, host_mac_only])"
  have hosts: "report_hosts ?r = [host_acme, host_down, host_mac_only]"
    by (simp add: report_hosts_report_of)
  have st: "status_up host_acme" "\<not> status_up host_down" "status_up host_mac_only"
    by (simp_all add: example_defs2 spec_defs)
  have fam: "family_addresses ''ipv4'' host_acme \<noteq> []" "family_addresses ''ipv4'' host_mac_only = []"
    by (simp_all add: example_defs2 spec_defs)
  have acme: "host_identifier host_acme = Inr (Some ''10.0.0.5 (AA:BB:CC:DD:EE:FF - Acme)'')"
    by (simp add: example_defs2 extract_defs)
  have mac_only: "host_identifier host_mac_only = Inr None"
    by (simp add: example_defs2 extract_defs)
  have printable: "\<forall>h\<in>set (report_hosts ?r). status_up h \<longrightarrow> (\<forall>e. host_identifier h \<noteq> Inl e)"
    by (simp add: hosts acme mac_only st)
  have sel: "filter (\<lambda>h. status_up h \<and> family_addresses ''ipv4'' h \<noteq> []) (report_hosts ?r) = [host_acme]"
    by (simp add: hosts st fam)
  have "snd (getActiveHosts (Inr (report_of (JArr [host_acme])))) = Inr [''10.0.0.5 (AA:BB:CC:DD:EE:FF - Acme)'']"
    by (simp add: getActiveHosts_parsed extract_acme)
  then show ?thesis
    using identity_set_is_up_hosts_with_ipv4 [of ?r] printable hosts st fam by (auto simp: sel)
qed

text \<open>
  Claim C9. For a host that is up, whose first IPv4 entry has the address \<open>ip\<close>: without
  a MAC entry the identifier is \<open>ip (No MAC)\<close>; with a first MAC entry of address
  \<open>mac\<close> it is \<open>ip (mac - vendor)\<close>, the vendor being the entry's vendor annotation, or
  \<open>Unknown\<close> when there is none. For one and the same \<open>ip\<close> the two shapes are never
  equal.
\<close>

theorem identifier_composition:
  "(status_up host \<and> family_addresses ''ipv4'' host = ipObj # ips
      \<and> field (field ipObj ''$'') ''addr'' = JStr ip \<longrightarrow>
      (family_addresses ''mac'' host = [] \<longrightarrow>
         host_identifier host = Inr (Some (ip @ '' (No MAC)'')))
    \<and> (family_addresses ''mac'' host = macObj # macs
         \<and> field (field macObj ''$'') ''addr'' = JStr mac \<longrightarrow>
         (field (field macObj ''$'') ''vendor'' = JStr vendor \<and> vendor \<noteq> [] \<longrightarrow>
            host_identifier host = Inr (Some (ip @ '' ('' @ mac @ '' - '' @ vendor @ '')'')))
       \<and> (field (field macObj ''$'') ''vendor'' = JUndefined \<longrightarrow>
            host_identifier host = Inr (Some (ip @ '' ('' @ mac @ '' - Unknown)'')))))
   \<and> id_with_mac ip mac vendor \<noteq> id_no_mac ip
   \<and> ip @ '' ('' @ mac @ '' - '' @ vendor @ '')'' \<noteq> ip @ '' (No MAC)''"
proof -
  have "host_identifier host = Inr (Some (ip @ '' (No MAC)''))"
    if "status_up host" "family_addresses ''ipv4'' host = ipObj # ips"
      "field (field ipObj ''$'') ''addr'' = JStr ip" "family_addresses ''mac'' host = []"
    using that by (simp add: host_identifier_eq status_up_truthy id_no_mac_def)
  moreover have "host_identifier host = Inr (Some (ip @ '' ('' @ mac @ '' - '' @ vendor @ '')''))"
    if "status_up host" "family_addresses ''ipv4'' host = ipObj # ips"
      "field (field ipObj ''$'') ''addr'' = JStr ip" "family_addresses ''mac'' host = macObj # macs"
      "field (field macObj ''$'') ''addr'' = JStr mac"
      "field (field macObj ''$'') ''vendor'' = JStr vendor" "vendor \<noteq> []"
    using that by (simp add: host_identifier_eq status_up_truthy id_with_mac_def)
  moreover have "host_identifier host = Inr (Some (ip @ '' ('' @ mac @ '' - Unknown)''))"
    if "status_up host" "family_addresses ''ipv4'' host = ipObj # ips"
      "field (field ipObj ''$'') ''addr'' = JStr ip" "family_addresses ''mac'' host = macObj # macs"
      "field (field macObj ''$'') ''addr'' = JStr mac"
      "field (field macObj ''$'') ''vendor'' = JUndefined"
    using that by (simp add: host_identifier_eq status_up_truthy id_with_mac_def)
  moreover have "ip @ '' ('' @ mac @ '' - '' @ vendor @ '')'' \<noteq> ip @ '' (No MAC)''"
    using ids_never_collide [of ip mac vendor] by (simp add: id_with_mac_def id_no_mac_def)
  ultimately show ?thesis
    using ids_never_collide by blast
qed

theorem identifier_composition_witness:
  "host_identifier host_plain = Inr (Some ''10.0.0.9 (No MAC)'')
   \<and> host_identifier host_acme = Inr (Some ''10.0.0.5 (AA:BB:CC:DD:EE:FF - Acme)'')
   \<and> host_identifier host_no_vendor = Inr (Some ''10.0.0.8 (11:22:33:44:55:66 - Unknown)'')"
  using identifier_composition [of host_plain "ipv4_entry ''10.0.0.9''" "[]" "''10.0.0.9''"
      undefined undefined undefined undefined]
    identifier_composition [of host_acme "ipv4_entry ''10.0.0.5''" "[]" "''10.0.0.5''"
      "mac_entry ''AA:BB:CC:DD:EE:FF'' ''Acme''" "[]" "''AA:BB:CC:DD:EE:FF''" "''Acme''"]
    identifier_composition [of host_no_vendor "ipv4_entry ''10.0.0.8''" "[]" "''10.0.0.8''"
      "mac_entry_no_vendor ''11:22:33:44:55:66''" "[]" "''11:22:33:44:55:66''" "''x''"]
  by (simp add: example_defs2 spec_defs)

text \<open>
  Claim C10. The first-scan flag is the emptiness of the stored set, computed anew in every
  cycle. A cycle that starts from the empty set sends no notification, although everything
  its scan returns counts as an arrival. A failed scan assigns the empty set; and after any
  cycle that assigned the empty set, a failed scan or a scan that found no host, the cycle
  that follows adds no notification.
\<close>

theorem empty_state_silences_next_cycle:
  "isFirstScan (compute_changes previous current) = (previous = [])
   \<and> notifications (checkForChanges scan notifier []) = []
   \<and> newDevices (compute_changes [] current) = current
   \<and> snd (checkForChanges (Inl e) notifier1 previous) = Inr []
   \<and> (snd (checkForChanges scan1 notifier1 previous) = Inr [] \<longrightarrow>
        notifications (run_cycles [(scan1, notifier1), (scan2, notifier2)] previous)
          = notifications (checkForChanges scan1 notifier1 previous))"
proof -
  have "notifications (run_cycles [(scan1, notifier1), (scan2, notifier2)] previous)
          = notifications (checkForChanges scan1 notifier1 previous)"
    if commit: "snd (checkForChanges scan1 notifier1 previous) = Inr []"
    unfolding run_two_cycles [OF commit]
    using first_cycle_quiet [of scan2 notifier2] by (simp add: notifications_def)
  then show ?thesis
    by (simp add: compute_changes_simps first_cycle_quiet checkForChanges_commits
        getActiveHosts_failed)
qed

theorem empty_state_silences_next_cycle_witness:
  "snd (checkForChanges (Inr (report_of (JArr []))) notifier_ok [''10.0.0.9 (No MAC)'']) = Inr []
   \<and> notifications (run_cycles [(Inr (report_of (JArr [])), notifier_ok),
        (Inr (report_of (JArr [host_plain])), notifier_ok)] [''10.0.0.9 (No MAC)''])
     = notifications (checkForChanges (Inr (report_of (JArr []))) notifier_ok [''10.0.0.9 (No MAC)''])"
proof -
  have "extractHosts (report_of (JArr [])) = Inr []"
    by (simp add: report_of_def extractHosts_def)
  then have commit: "snd (checkForChanges (Inr (report_of (JArr []))) notifier_ok [''10.0.0.9 (No MAC)'']) = Inr []"
    by (simp add: checkForChanges_commits getActiveHosts_parsed)
  show ?thesis
    using empty_state_silences_next_cycle [of "[''10.0.0.9 (No MAC)'']" "[]" "Inl ExecError"
        notifier_ok ExecError notifier_ok "Inr (report_of (JArr []))"
        "Inr (report_of (JArr [host_plain]))" notifier_ok] commit
    by simp
qed

end
